theory Spec2Isabelle
  imports Main "HOL-Library.AList" "HOL-Library.Sublist"
    "HOL-Library.Char_ord" "HOL-Library.List_Lexorder"
begin

section \<open>Strings and paths as the script uses them\<close>

text \<open>
  The script \<^verbatim>\<open>generate_obsidian_notes.py\<close> works on Python strings and on
  \<^verbatim>\<open>pathlib\<close> paths. A string is a \<^typ>\<open>string\<close>; a path is the list of its
  components. An absolute path is the list of the components below the root directory,
  so that its \<^verbatim>\<open>parts\<close> are the anchor \<^verbatim>\<open>/\<close> followed by that list.
\<close>

type_synonym path = "string list"

text \<open>\<^verbatim>\<open>s.startswith(p)\<close> and \<^verbatim>\<open>s.endswith(x)\<close>.\<close>

definition startswith :: "string \<Rightarrow> string \<Rightarrow> bool" where
  "startswith s p = (take (length p) s = p)"

definition endswith :: "string \<Rightarrow> string \<Rightarrow> bool" where
  "endswith s x = (length x \<le> length s \<and> drop (length s - length x) s = x)"

text \<open>
  \<^verbatim>\<open>s.split(sep)\<close> for a one-character separator: the result is never empty, and an
  empty string splits into one empty field.
\<close>

fun split_str :: "char \<Rightarrow> string \<Rightarrow> string list" where
  "split_str sep [] = [[]]"
| "split_str sep (c # cs) =
     (if c = sep then [] # split_str sep cs
      else (case split_str sep cs of
              w # ws \<Rightarrow> (c # w) # ws
            | [] \<Rightarrow> [[c]]))"

text \<open>\<^verbatim>\<open>sep.join(xs)\<close>.\<close>

fun join :: "string \<Rightarrow> string list \<Rightarrow> string" where
  "join sep [] = []"
| "join sep [x] = x"
| "join sep (x # y # ys) = x @ sep @ join sep (y # ys)"

text \<open>\<^verbatim>\<open>s.replace("/", ".")\<close>: both strings are one character long.\<close>

definition replace_slash :: "string \<Rightarrow> string" where
  "replace_slash s = map (\<lambda>c. if c = CHR ''/'' then CHR ''.'' else c) s"

text \<open>
  \<^verbatim>\<open>Path.parts\<close> of an absolute path, \<^verbatim>\<open>Path.name\<close>, \<^verbatim>\<open>Path.parent\<close> and
  \<^verbatim>\<open>Path.as_posix()\<close> of a relative path (the empty relative path prints as a dot).
\<close>

definition parts :: "path \<Rightarrow> string list" where
  "parts p = ''/'' # p"

definition path_name :: "path \<Rightarrow> string" where
  "path_name p = (if p = [] then [] else last p)"

definition parent :: "path \<Rightarrow> path" where
  "parent p = butlast p"

definition as_posix :: "path \<Rightarrow> string" where
  "as_posix p = (if p = [] then ''.'' else join ''/'' p)"

text \<open>\<^verbatim>\<open>str(p)\<close> of an absolute path.\<close>

definition str_path :: "path \<Rightarrow> string" where
  "str_path p = ''/'' @ join ''/'' p"

text \<open>
  \<^verbatim>\<open>Path.suffix\<close>: the part of the name from its last dot on, unless that dot is the
  first or the last character of the name (\<^verbatim>\<open>i = name.rfind('.')\<close>,
  \<^verbatim>\<open>0 < i < len(name) - 1\<close>). \<^verbatim>\<open>Path.with_suffix(s)\<close> replaces that suffix, or
  appends \<^verbatim>\<open>s\<close> when there is none.
\<close>

definition rfind :: "char \<Rightarrow> string \<Rightarrow> nat option" where
  "rfind c s =
     (if c \<in> set s then Some (length s - 1 - length (takeWhile (\<lambda>x. x \<noteq> c) (rev s)))
      else None)"

definition path_suffix :: "string \<Rightarrow> string" where
  "path_suffix nm =
     (case rfind CHR ''.'' nm of
        None \<Rightarrow> []
      | Some i \<Rightarrow> if 0 < i \<and> i + 1 < length nm then drop i nm else [])"

definition with_suffix :: "path \<Rightarrow> string \<Rightarrow> path" where
  "with_suffix p s =
     (let nm = path_name p; old_suffix = path_suffix nm
      in parent p @
         [if old_suffix = [] then nm @ s
          else take (length nm - length old_suffix) nm @ s])"

section \<open>The module catalog: \<^verbatim>\<open>get_internal_modules\<close>\<close>

text \<open>
  The catalog is a Python \<^verbatim>\<open>dict\<close> from dotted module name to note path. A dict keeps
  its keys in insertion order, and assigning to a key that is present keeps the key's
  position: this is an association list under \<^const>\<open>AList.update\<close>.
\<close>

type_synonym catalog = "(string \<times> string) list"

text \<open>
  The project tree is the list of the paths below the project root, relative to it, in
  the order in which \<^verbatim>\<open>rglob\<close> walks them. \<^verbatim>\<open>rglob("*.py")\<close> keeps the entries
  whose last component matches the pattern.
\<close>

definition matches_py :: "path \<Rightarrow> bool" where
  "matches_py p = (p \<noteq> [] \<and> endswith (last p) ''.py'')"

definition rglob_py :: "path list \<Rightarrow> path list" where
  "rglob_py tree = filter matches_py tree"

text \<open>Lines 31 to 38: the dotted name of a file that passed the two guards.\<close>

definition mod_name_of :: "path \<Rightarrow> path \<Rightarrow> string" where
  "mod_name_of project_root rel_path =
     (if path_name (project_root @ rel_path) = ''__init__.py'' then
        (if parent rel_path = [] then path_name project_root
         else replace_slash (as_posix (parent rel_path)))
      else replace_slash (as_posix (with_suffix rel_path [])))"

text \<open>Line 40: the note path, the relative path without its suffix.\<close>

definition note_of :: "path \<Rightarrow> string" where
  "note_of rel_path = as_posix (with_suffix rel_path [])"

text \<open>
  One round of the loop of lines 23 to 40 for the file \<open>rel\<close>: \<open>None\<close> when one of the
  two guards says \<^verbatim>\<open>continue\<close>, otherwise the key and the value of the assignment.
\<close>

definition module_entry :: "path \<Rightarrow> path \<Rightarrow> (string \<times> string) option" where
  "module_entry project_root rel =
     (let filepath = project_root @ rel
      in if ''.venv'' \<in> set (parts filepath) then None
         else if startswith (path_name filepath) ''__'' then None
         else Some (mod_name_of project_root rel, note_of rel))"

definition scan_file :: "path \<Rightarrow> catalog \<Rightarrow> path \<Rightarrow> catalog" where
  "scan_file project_root modules rel =
     (case module_entry project_root rel of
        None \<Rightarrow> modules
      | Some (mod_name, note) \<Rightarrow> AList.update mod_name note modules)"

definition get_internal_modules :: "path \<Rightarrow> path list \<Rightarrow> catalog" where
  "get_internal_modules project_root tree =
     foldl (scan_file project_root) [] (rglob_py tree)"

section \<open>The import resolver: \<^verbatim>\<open>parse_imports\<close>\<close>

text \<open>
  The nodes that \<^verbatim>\<open>ast.walk\<close> yields: the two import statements with the fields the
  script reads, and every other node.
\<close>

datatype ast_alias = Alias (name: string) (asname: "string option")

datatype node =
    Import (names: "ast_alias list")
  | ImportFrom (module: "string option") (names: "ast_alias list") (level: int)
  | Other

text \<open>
  What reading and parsing one file gives: \<^verbatim>\<open>read_text\<close> raised an exception with a
  message; or it returned a text on which \<^verbatim>\<open>ast.parse\<close> raised \<^verbatim>\<open>SyntaxError\<close>
  with a message; or it returned a text on which \<^verbatim>\<open>ast.parse\<close> raised an exception
  that is not a \<^verbatim>\<open>SyntaxError\<close> (\<^verbatim>\<open>RecursionError\<close> on a deeply nested text,
  \<^verbatim>\<open>MemoryError\<close>, \<^verbatim>\<open>ValueError\<close> on a null byte before Python 3.12); or the text
  parsed and \<^verbatim>\<open>ast.walk\<close> yields the given nodes.
\<close>

datatype source_file =
    Unreadable string
  | Malformed string string
  | Uncaught string string
  | Module string "node list"

text \<open>Lines 66 to 74.\<close>

definition is_internal :: "catalog \<Rightarrow> string \<Rightarrow> string option" where
  "is_internal internal_modules module_str =
     (if module_str \<in> set (map fst internal_modules) then Some module_str
      else find (\<lambda>key. endswith key (''.'' @ module_str)) (map fst internal_modules))"

text \<open>
  \<^verbatim>\<open>if internal_match:\<close> tests the truth value of the result: \<^verbatim>\<open>None\<close> and the
  empty string are both false.
\<close>

definition truthy :: "string option \<Rightarrow> bool" where
  "truthy m = (case m of None \<Rightarrow> False | Some s \<Rightarrow> s \<noteq> [])"

type_synonym deps = "string set \<times> string set"

text \<open>Lines 79 to 85: one alias of a plain import.\<close>

definition import_alias :: "catalog \<Rightarrow> deps \<Rightarrow> ast_alias \<Rightarrow> deps" where
  "import_alias internal_modules d a =
     (let mod_str = name a;
          internal_match = is_internal internal_modules mod_str
      in if truthy internal_match then (insert (the internal_match) (fst d), snd d)
         else (fst d, insert (hd (split_str CHR ''.'' mod_str)) (snd d)))"

text \<open>Lines 95 to 113: one alias of a from-import whose module text is \<open>mod_full\<close>.\<close>

definition from_alias :: "catalog \<Rightarrow> string \<Rightarrow> deps \<Rightarrow> ast_alias \<Rightarrow> deps" where
  "from_alias internal_modules mod_full d a =
     (if name a = ''*'' then d
      else
        let candidate = (if mod_full \<noteq> [] then mod_full @ ''.'' @ name a else name a);
            internal_match = is_internal internal_modules candidate
        in if truthy internal_match then (insert (the internal_match) (fst d), snd d)
           else if mod_full \<noteq> [] then
             (let internal_match = is_internal internal_modules mod_full
              in if truthy internal_match
                 then (insert (the internal_match) (fst d), snd d)
                 else (fst d, insert (hd (split_str CHR ''.'' mod_full)) (snd d)))
           else (fst d, insert (hd (split_str CHR ''.'' (name a))) (snd d)))"

text \<open>
  Lines 77 to 113: one node of the walk. \<^verbatim>\<open>module if module else ""\<close> is the module
  text, empty when the field is \<^verbatim>\<open>None\<close>; both branches on the level are the same.
\<close>

definition module_or_empty :: "string option \<Rightarrow> string" where
  "module_or_empty m = (case m of None \<Rightarrow> [] | Some s \<Rightarrow> (if s \<noteq> [] then s else []))"

fun visit :: "catalog \<Rightarrow> deps \<Rightarrow> node \<Rightarrow> deps" where
  "visit internal_modules d (Import nms) = foldl (import_alias internal_modules) d nms"
| "visit internal_modules d (ImportFrom m nms lvl) =
     (let mod_full = (if lvl > 0 then module_or_empty m else module_or_empty m)
      in foldl (from_alias internal_modules mod_full) d nms)"
| "visit internal_modules d Other = d"

text \<open>Lines 63 to 114: the walk over a parsed tree, from two empty sets.\<close>

definition walk_imports :: "catalog \<Rightarrow> node list \<Rightarrow> deps" where
  "walk_imports internal_modules tree = foldl (visit internal_modules) ({}, {}) tree"

text \<open>
  \<^verbatim>\<open>parse_imports\<close>, lines 52 to 114. It returns the two sets, here together with the
  lines it printed to \<^verbatim>\<open>sys.stderr\<close> (\<open>Inr\<close>), or it raises (\<open>Inl\<close>, with the message
  of the exception). Line 54 catches every exception of \<^verbatim>\<open>read_text\<close>; line 59 catches
  \<^verbatim>\<open>SyntaxError\<close> only, so any other exception of \<^verbatim>\<open>ast.parse\<close> leaves the function.
\<close>

definition parse_imports ::
  "path \<Rightarrow> source_file \<Rightarrow> catalog \<Rightarrow> string + (deps \<times> string list)" where
  "parse_imports filepath file internal_modules =
     (case file of
        Unreadable e \<Rightarrow>
          Inr (({}, {}), [''Error reading '' @ str_path filepath @ '': '' @ e])
      | Malformed source e \<Rightarrow>
          Inr (({}, {}), [''Syntax error in '' @ str_path filepath @ '': '' @ e])
      | Uncaught source e \<Rightarrow> Inl e
      | Module source tree \<Rightarrow> Inr (walk_imports internal_modules tree, []))"

section \<open>The run over the project: \<^verbatim>\<open>write_markdown_nodes\<close>\<close>

definition FOLDER_COLOR_MAP :: "(string \<times> string) list" where
  "FOLDER_COLOR_MAP =
     [(''base'', ''#f8b195''), (''bots'', ''#f67280''),
      (''utils'', ''#c06c84''), (''root'', ''#355c7d'')]"

text \<open>Lines 121 to 123.\<close>

definition get_color_for_node :: "string \<Rightarrow> string" where
  "get_color_for_node note_rel_path =
     (let pieces = split_str CHR ''/'' note_rel_path;
          key = (if hd pieces \<noteq> [] then hd pieces else ''root'')
      in case map_of FOLDER_COLOR_MAP key of
           Some color \<Rightarrow> color
         | None \<Rightarrow> ''#355c7d'')"

text \<open>
  Lines 159 to 183: the text of the note of the file \<open>rel_path\<close>, whose two sets are
  \<open>d\<close>. \<^verbatim>\<open>sorted\<close> orders strings by their characters, \<^verbatim>\<open>internal_modules.get(dep, dep)\<close>
  is the lookup with the key as default.
\<close>

definition render_note :: "catalog \<Rightarrow> path \<Rightarrow> deps \<Rightarrow> string" where
  "render_note internal_modules rel_path d =
     (let note_rel_path = as_posix (with_suffix rel_path ''.md'');
          node_color = get_color_for_node note_rel_path;
          internal_deps = fst d;
          external_deps = snd d;
          lines =
            [''---'', ''color: '' @ [CHR 0x22] @ node_color @ [CHR 0x22], ''---'', [],
             ''# '' @ as_posix rel_path, []]
            @ (if internal_deps \<noteq> {} then
                 [''## Internal Dependencies'']
                 @ map (\<lambda>dep. ''- ['' @ ''['' @
                          (case map_of internal_modules dep of
                             Some link \<Rightarrow> link
                           | None \<Rightarrow> dep) @ '']'' @ '']'')
                     (sorted_list_of_set internal_deps)
                 @ [[]]
               else [])
            @ (if external_deps \<noteq> {} then
                 [''## External Dependencies'']
                 @ map (\<lambda>dep. ''- '' @ dep) (sorted_list_of_set external_deps)
                 @ [[]]
               else [])
      in join [CHR 0x0A] lines)"

text \<open>
  What creating the directory of a note and writing the note gives: \<^verbatim>\<open>mkdir\<close> raised
  an exception with a message (line 151), or \<^verbatim>\<open>write_text\<close> did (line 184), or both
  calls succeeded. Neither call is inside a \<^verbatim>\<open>try\<close>.
\<close>

datatype note_io =
    MkdirRaised string
  | WriteRaised string
  | NoteWritten

text \<open>
  What a run leaves behind: the directories made, the notes written (path and text), the
  lines printed to the standard output and those printed to \<^verbatim>\<open>sys.stderr\<close>, each in
  the order of the calls, and the message of the exception that ended the run, if one
  did.
\<close>

record run_output =
  made_dirs :: "string list"
  written :: "(string \<times> string) list"
  printed :: "string list"
  errors :: "string list"
  raised :: "string option"

text \<open>
  Lines 136 to 185: one round of the loop, for an entry of the project tree: its relative
  path, what reading and parsing it gives, and what creating the directory and writing the
  note gives. The note goes to the vault under the same relative path, with the suffix
  \<^verbatim>\<open>.md\<close>. An exception of \<^verbatim>\<open>mkdir\<close>, of \<^verbatim>\<open>parse_imports\<close> or of
  \<^verbatim>\<open>write_text\<close> ends the round where it is raised, after the effects of the calls
  before it.
\<close>

definition write_node ::
  "path \<Rightarrow> path \<Rightarrow> catalog \<Rightarrow> run_output \<Rightarrow> path \<times> source_file \<times> note_io \<Rightarrow> run_output"
  where
  "write_node project_root vault_root internal_modules out entry =
     (let rel = fst entry; file = fst (snd entry); io = snd (snd entry);
          filepath = project_root @ rel
      in if ''.venv'' \<in> set (parts filepath) then out
         else if startswith (path_name filepath) ''__'' then out
         else
           let note_full_path = vault_root @ with_suffix rel ''.md''
           in case io of
                MkdirRaised x \<Rightarrow> out\<lparr>raised := Some x\<rparr>
              | _ \<Rightarrow>
                (case parse_imports filepath file internal_modules of
                   Inl x \<Rightarrow>
                     out\<lparr>made_dirs := made_dirs out @ [str_path (parent note_full_path)],
                         raised := Some x\<rparr>
                 | Inr resolved \<Rightarrow>
                     (case io of
                        WriteRaised x \<Rightarrow>
                          out\<lparr>made_dirs := made_dirs out @ [str_path (parent note_full_path)],
                              errors := errors out @ snd resolved,
                              raised := Some x\<rparr>
                      | _ \<Rightarrow>
                          out\<lparr>made_dirs := made_dirs out @ [str_path (parent note_full_path)],
                              errors := errors out @ snd resolved,
                              written := written out @
                                [(str_path note_full_path,
                                  render_note internal_modules rel (fst resolved))],
                              printed := printed out @
                                [''Generated node: '' @ str_path note_full_path]\<rparr>)))"

text \<open>
  The loop of line 135 over the entries that \<^verbatim>\<open>rglob\<close> yields: it goes to the next
  entry unless the round raised.
\<close>

fun write_nodes_loop ::
  "path \<Rightarrow> path \<Rightarrow> catalog \<Rightarrow> run_output \<Rightarrow> (path \<times> source_file \<times> note_io) list \<Rightarrow> run_output"
  where
  "write_nodes_loop project_root vault_root internal_modules out [] = out"
| "write_nodes_loop project_root vault_root internal_modules out (entry # entries) =
     (let out' = write_node project_root vault_root internal_modules out entry
      in if raised out' = None
         then write_nodes_loop project_root vault_root internal_modules out' entries
         else out')"

text \<open>
  Lines 134 to 185. The project tree is given with, for each entry, what reading and
  parsing it gives and what writing its note gives.
\<close>

definition write_markdown_nodes ::
  "path \<Rightarrow> path \<Rightarrow> (path \<times> source_file \<times> note_io) list \<Rightarrow> run_output" where
  "write_markdown_nodes project_root vault_root tree =
     (let internal_modules = get_internal_modules project_root (map fst tree)
      in write_nodes_loop project_root vault_root internal_modules
           \<lparr>made_dirs = [], written = [], printed = [], errors = [], raised = None\<rparr>
           (filter (\<lambda>entry. matches_py (fst entry)) tree))"

section \<open>Facts about the string functions and the match rule\<close>

lemma endswith_iff: "endswith s x \<longleftrightarrow> (\<exists>p. s = p @ x)"
proof
  assume "endswith s x"
  then have "s = take (length s - length x) s @ x"
    by (metis append_take_drop_id endswith_def)
  then show "\<exists>p. s = p @ x" ..
next
  assume "\<exists>p. s = p @ x"
  then show "endswith s x" by (auto simp: endswith_def)
qed

lemma startswith_iff: "startswith s p \<longleftrightarrow> (\<exists>r. s = p @ r)"
proof
  assume "startswith s p"
  then have "s = p @ drop (length p) s"
    by (metis append_take_drop_id startswith_def)
  then show "\<exists>r. s = p @ r" ..
next
  assume "\<exists>r. s = p @ r"
  then show "startswith s p" by (auto simp: startswith_def)
qed

lemma split_str_not_Nil: "split_str sep s \<noteq> []"
  by (induction s) (auto split: list.splits)

lemma hd_split_str: "hd (split_str sep s) = takeWhile (\<lambda>c. c \<noteq> sep) s"
proof (induction s)
  case Nil
  show ?case by simp
next
  case (Cons c cs)
  then show ?case using split_str_not_Nil [of sep cs]
    by (cases "split_str sep cs") auto
qed

lemma is_internal_key:
  assumes "is_internal cat m = Some k"
  shows "k \<in> fst ` set cat"
proof (cases "m \<in> set (map fst cat)")
  case True
  with assms show ?thesis by (simp add: is_internal_def)
next
  case False
  with assms have "find (\<lambda>key. endswith key (''.'' @ m)) (map fst cat) = Some k"
    by (simp add: is_internal_def)
  then have "k \<in> set (map fst cat)"
    by (auto simp: find_Some_iff)
  then show ?thesis by simp
qed

lemma is_internal_nonempty:
  assumes "is_internal cat m = Some k" "m \<noteq> []"
  shows "k \<noteq> []"
proof (cases "m \<in> set (map fst cat)")
  case True
  with assms show ?thesis by (simp add: is_internal_def)
next
  case False
  with assms have "find (\<lambda>key. endswith key (''.'' @ m)) (map fst cat) = Some k"
    by (simp add: is_internal_def)
  then have "endswith k (''.'' @ m)"
    by (auto simp: find_Some_iff)
  then show ?thesis by (auto simp: endswith_iff)
qed

lemma truthy_nonempty: "m \<noteq> [] \<Longrightarrow> truthy (is_internal cat m) \<longleftrightarrow> is_internal cat m \<noteq> None"
  using is_internal_nonempty [of cat m] by (cases "is_internal cat m") (auto simp: truthy_def)

subsection \<open>What one alias adds\<close>

lemma import_alias_cases:
  "import_alias cat d a =
     (if truthy (is_internal cat (name a))
      then (insert (the (is_internal cat (name a))) (fst d), snd d)
      else (fst d, insert (takeWhile (\<lambda>c. c \<noteq> CHR ''.'') (name a)) (snd d)))"
  by (simp add: import_alias_def Let_def hd_split_str)

lemma from_alias_cases:
  "from_alias cat mf d a =
     (if name a = ''*'' then d
      else if truthy (is_internal cat (if mf \<noteq> [] then mf @ ''.'' @ name a else name a))
      then (insert (the (is_internal cat (if mf \<noteq> [] then mf @ ''.'' @ name a else name a)))
              (fst d), snd d)
      else if mf \<noteq> [] then
        (if truthy (is_internal cat mf) then (insert (the (is_internal cat mf)) (fst d), snd d)
         else (fst d, insert (takeWhile (\<lambda>c. c \<noteq> CHR ''.'') mf) (snd d)))
      else (fst d, insert (takeWhile (\<lambda>c. c \<noteq> CHR ''.'') (name a)) (snd d)))"
  by (simp add: from_alias_def Let_def hd_split_str)

lemma visit_ImportFrom:
  "visit cat d (ImportFrom m nms lvl) = foldl (from_alias cat (module_or_empty m)) d nms"
  by simp

subsection \<open>The sets only grow\<close>

lemma foldl_preserves:
  assumes "\<And>d x. P d \<Longrightarrow> P (f d x)" and "P d"
  shows "P (foldl f d xs)"
  using assms(2) by (induction xs arbitrary: d) (auto intro: assms(1))

lemma import_alias_mono:
  "fst d \<subseteq> fst (import_alias cat d a) \<and> snd d \<subseteq> snd (import_alias cat d a)"
  by (auto simp: import_alias_cases)

lemma from_alias_mono:
  "fst d \<subseteq> fst (from_alias cat mf d a) \<and> snd d \<subseteq> snd (from_alias cat mf d a)"
  by (auto simp: from_alias_cases)

lemma import_aliases_mono:
  "fst d \<subseteq> fst (foldl (import_alias cat) d nms) \<and> snd d \<subseteq> snd (foldl (import_alias cat) d nms)"
proof (induction nms arbitrary: d)
  case Nil
  show ?case by simp
next
  case (Cons a nms)
  from import_alias_mono [of d cat a] Cons [of "import_alias cat d a"]
  show ?case by auto
qed

lemma from_aliases_mono:
  "fst d \<subseteq> fst (foldl (from_alias cat mf) d nms) \<and> snd d \<subseteq> snd (foldl (from_alias cat mf) d nms)"
proof (induction nms arbitrary: d)
  case Nil
  show ?case by simp
next
  case (Cons a nms)
  from from_alias_mono [of d cat mf a] Cons [of "from_alias cat mf d a"]
  show ?case by auto
qed

lemma visit_mono: "fst d \<subseteq> fst (visit cat d n) \<and> snd d \<subseteq> snd (visit cat d n)"
  by (cases n) (simp_all add: import_aliases_mono from_aliases_mono)

lemma visits_mono:
  "fst d \<subseteq> fst (foldl (visit cat) d tree) \<and> snd d \<subseteq> snd (foldl (visit cat) d tree)"
proof (induction tree arbitrary: d)
  case Nil
  show ?case by simp
next
  case (Cons n tree)
  from visit_mono [of d cat n] Cons [of "visit cat d n"]
  show ?case by auto
qed

text \<open>What an alias adds is in the result of the whole walk.\<close>

lemma import_alias_kept:
  assumes "Import nms \<in> set tree" "a \<in> set nms"
  shows "\<exists>d. fst (import_alias cat d a) \<subseteq> fst (walk_imports cat tree)
           \<and> snd (import_alias cat d a) \<subseteq> snd (walk_imports cat tree)"
proof -
  from assms(1) obtain t1 t2 where t: "tree = t1 @ Import nms # t2"
    by (auto simp: in_set_conv_decomp)
  from assms(2) obtain n1 n2 where n: "nms = n1 @ a # n2"
    by (auto simp: in_set_conv_decomp)
  define d0 where "d0 = foldl (visit cat) ({}, {}) t1"
  define d1 where "d1 = foldl (import_alias cat) d0 n1"
  have "walk_imports cat tree
        = foldl (visit cat) (foldl (import_alias cat) (import_alias cat d1 a) n2) t2"
    by (simp add: walk_imports_def t n d0_def d1_def)
  with import_aliases_mono [of "import_alias cat d1 a" cat n2]
    visits_mono [of "foldl (import_alias cat) (import_alias cat d1 a) n2" cat t2]
  have "fst (import_alias cat d1 a) \<subseteq> fst (walk_imports cat tree)
      \<and> snd (import_alias cat d1 a) \<subseteq> snd (walk_imports cat tree)"
    by auto
  then show ?thesis ..
qed

lemma from_alias_kept:
  assumes "ImportFrom m nms lvl \<in> set tree" "a \<in> set nms"
  shows "\<exists>d. fst (from_alias cat (module_or_empty m) d a) \<subseteq> fst (walk_imports cat tree)
           \<and> snd (from_alias cat (module_or_empty m) d a) \<subseteq> snd (walk_imports cat tree)"
proof -
  from assms(1) obtain t1 t2 where t: "tree = t1 @ ImportFrom m nms lvl # t2"
    by (auto simp: in_set_conv_decomp)
  from assms(2) obtain n1 n2 where n: "nms = n1 @ a # n2"
    by (auto simp: in_set_conv_decomp)
  define mf where "mf = module_or_empty m"
  define d0 where "d0 = foldl (visit cat) ({}, {}) t1"
  define d1 where "d1 = foldl (from_alias cat mf) d0 n1"
  have "walk_imports cat tree
        = foldl (visit cat) (foldl (from_alias cat mf) (from_alias cat mf d1 a) n2) t2"
    by (simp add: walk_imports_def t n d0_def d1_def mf_def Let_def)
  with from_aliases_mono [of "from_alias cat mf d1 a" cat mf n2]
    visits_mono [of "foldl (from_alias cat mf) (from_alias cat mf d1 a) n2" cat t2]
  have "fst (from_alias cat mf d1 a) \<subseteq> fst (walk_imports cat tree)
      \<and> snd (from_alias cat mf d1 a) \<subseteq> snd (walk_imports cat tree)"
    by auto
  then show ?thesis unfolding mf_def ..
qed

lemma find_first:
  assumes "xs = ys @ x # zs" "P x" "\<forall>y \<in> set ys. \<not> P y"
  shows "find P xs = Some x"
  using assms by (induction ys arbitrary: xs) auto

section \<open>The internal-match rule\<close>

text \<open>
  C2. \<^verbatim>\<open>is_internal\<close> returns the candidate itself when it is a key of the catalog;
  otherwise the first key, in the order of the catalog's keys, that ends with a dot
  followed by the candidate; otherwise nothing, and the candidate is external.
\<close>

theorem is_internal_rule:
  "(candidate \<in> fst ` set cat \<longrightarrow> is_internal cat candidate = Some candidate) \<and>
   (candidate \<notin> fst ` set cat \<longrightarrow>
      (\<forall>before key after.
          map fst cat = before @ key # after \<and>
          (\<exists>p. key = p @ ''.'' @ candidate) \<and>
          (\<forall>k \<in> set before. \<not> (\<exists>p. k = p @ ''.'' @ candidate))
          \<longrightarrow> is_internal cat candidate = Some key) \<and>
      ((\<forall>k \<in> fst ` set cat. \<not> (\<exists>p. k = p @ ''.'' @ candidate))
          \<longrightarrow> is_internal cat candidate = None))"
proof (intro conjI impI allI)
  assume "candidate \<in> fst ` set cat"
  then show "is_internal cat candidate = Some candidate"
    by (simp add: is_internal_def)
next
  fix before key after
  assume out: "candidate \<notin> fst ` set cat"
    and first: "map fst cat = before @ key # after \<and>
          (\<exists>p. key = p @ ''.'' @ candidate) \<and>
          (\<forall>k \<in> set before. \<not> (\<exists>p. k = p @ ''.'' @ candidate))"
  from first have "find (\<lambda>key. endswith key (''.'' @ candidate)) (map fst cat) = Some key"
    by (intro find_first [of _ before key after]) (simp_all add: endswith_iff)
  with out show "is_internal cat candidate = Some key"
    by (simp add: is_internal_def)
next
  assume out: "candidate \<notin> fst ` set cat"
    and none: "\<forall>k \<in> fst ` set cat. \<not> (\<exists>p. k = p @ ''.'' @ candidate)"
  from none have "find (\<lambda>key. endswith key (''.'' @ candidate)) (map fst cat) = None"
    by (simp add: find_None_iff endswith_iff)
  with out show "is_internal cat candidate = None"
    by (simp add: is_internal_def)
qed

theorem is_internal_rule_witness:
  "is_internal [(''base.bots'', ''base/bots''), (''x.bots'', ''x/bots'')] ''x.bots'' = Some ''x.bots''
   \<and> is_internal [(''base.bots'', ''base/bots''), (''x.bots'', ''x/bots'')] ''bots'' = Some ''base.bots''
   \<and> is_internal [(''base.bots'', ''base/bots''), (''x.bots'', ''x/bots'')] ''os'' = None"
proof (intro conjI)
  let ?cat = "[(''base.bots'', ''base/bots''), (''x.bots'', ''x/bots'')]"
  show "is_internal ?cat ''x.bots'' = Some ''x.bots''"
    using is_internal_rule [of "''x.bots''" ?cat] by simp
  have "map fst ?cat = [] @ ''base.bots'' # [''x.bots'']" by simp
  moreover have "\<exists>p. ''base.bots'' = p @ ''.'' @ ''bots''"
    by (rule exI [of _ "''base''"]) simp
  moreover have "''bots'' \<notin> fst ` set ?cat" by simp
  ultimately show "is_internal ?cat ''bots'' = Some ''base.bots''"
    using is_internal_rule [of "''bots''" ?cat] by (metis empty_iff list.set(1))
  have "\<forall>k \<in> fst ` set ?cat. \<not> (\<exists>p. k = p @ ''.'' @ ''os'')"
    by (auto simp: append_eq_Cons_conv Cons_eq_append_conv)
  moreover have "''os'' \<notin> fst ` set ?cat" by simp
  ultimately show "is_internal ?cat ''os'' = None"
    using is_internal_rule [of "''os''" ?cat] by blast
qed

lemma parse_imports_Module:
  "parse_imports fp (Module src tree) cat = Inr (walk_imports cat tree, [])"
  by (simp add: parse_imports_def)

subsection \<open>Invariants of the walk\<close>

lemma walk_invariant:
  assumes alias1: "\<And>d a. P d \<Longrightarrow> P (import_alias cat d a)"
    and alias2: "\<And>d mf a. P d \<Longrightarrow> P (from_alias cat mf d a)"
    and init: "P ({}, {})"
  shows "P (walk_imports cat tree)"
proof -
  have step: "P (visit cat d n)" if "P d" for d n
  proof (cases n)
    case (Import nms)
    from that show ?thesis unfolding Import visit.simps
      by (rule foldl_preserves [rotated]) (rule alias1)
  next
    case (ImportFrom m nms lvl)
    from that show ?thesis unfolding ImportFrom visit_ImportFrom
      by (rule foldl_preserves [rotated]) (rule alias2)
  next
    case Other
    with that show ?thesis by simp
  qed
  from init show ?thesis unfolding walk_imports_def
    by (rule foldl_preserves [rotated]) (rule step)
qed

lemma truthy_key: "truthy (is_internal cat m) \<Longrightarrow> the (is_internal cat m) \<in> fst ` set cat"
  by (cases "is_internal cat m") (auto simp: truthy_def dest: is_internal_key)

lemma walk_internal_keys: "fst (walk_imports cat tree) \<subseteq> fst ` set cat"
proof (rule walk_invariant)
  fix d :: deps and a
  assume "fst d \<subseteq> fst ` set cat"
  then show "fst (import_alias cat d a) \<subseteq> fst ` set cat"
    using truthy_key [of cat "name a"] by (auto simp: import_alias_cases)
next
  fix d :: deps and mf a
  assume "fst d \<subseteq> fst ` set cat"
  then show "fst (from_alias cat mf d a) \<subseteq> fst ` set cat"
    using truthy_key [of cat "mf @ ''.'' @ name a"] truthy_key [of cat "name a"]
      truthy_key [of cat mf]
    by (auto simp: from_alias_cases split: if_splits)
next
  show "fst ({}, {}) \<subseteq> fst ` set cat" by simp
qed

lemma top_level_no_dot: "CHR ''.'' \<notin> set (takeWhile (\<lambda>c. c \<noteq> CHR ''.'') s)"
  by (auto dest: set_takeWhileD)

lemma walk_external_no_dot: "\<forall>x \<in> snd (walk_imports cat tree). CHR ''.'' \<notin> set x"
proof (rule walk_invariant)
  fix d :: deps and a
  assume "\<forall>x \<in> snd d. CHR ''.'' \<notin> set x"
  then show "\<forall>x \<in> snd (import_alias cat d a). CHR ''.'' \<notin> set x"
    using top_level_no_dot by (auto simp: import_alias_cases)
next
  fix d :: deps and mf a
  assume "\<forall>x \<in> snd d. CHR ''.'' \<notin> set x"
  then show "\<forall>x \<in> snd (from_alias cat mf d a). CHR ''.'' \<notin> set x"
    using top_level_no_dot by (auto simp: from_alias_cases)
next
  show "\<forall>x \<in> snd ({}, {}). CHR ''.'' \<notin> set x" by simp
qed

text \<open>
  C9. Every element of the internal set that \<^verbatim>\<open>parse_imports\<close> returns is a key
  of the catalog it was given, whatever the file and the catalog are; and the function
  returns unless \<^verbatim>\<open>ast.parse\<close> raised an exception that is not caught.
\<close>

theorem internal_deps_are_catalog_keys:
  "case parse_imports filepath file cat of
     Inr resolved \<Rightarrow> fst (fst resolved) \<subseteq> fst ` set cat
   | Inl e \<Rightarrow> (\<exists>source. file = Uncaught source e)"
proof (cases "file")
  case (Unreadable e)
  then show ?thesis by (simp add: parse_imports_def)
next
  case (Malformed source e)
  then show ?thesis by (simp add: parse_imports_def)
next
  case (Uncaught source e)
  then show ?thesis by (simp add: parse_imports_def)
next
  case (Module source tree)
  then have "parse_imports filepath file cat = Inr (walk_imports cat tree, [])"
    by (simp add: parse_imports_Module)
  with walk_internal_keys [of cat tree] show ?thesis by simp
qed

section \<open>The two sets of one file\<close>

text \<open>
  The two sets are not always disjoint. With the catalog \<^verbatim>\<open>{"a": "a"}\<close> and a file
  of the two lines \<^verbatim>\<open>import a\<close> and \<^verbatim>\<open>import a.b\<close>, the first import matches
  the key \<^verbatim>\<open>a\<close>, the second matches nothing and leaves its top-level component
  \<^verbatim>\<open>a\<close> in the external set.
\<close>

theorem deps_not_disjoint:
  "parse_imports [''proj'', ''m.py'']
     (Module (''import a'' @ [CHR 0x0A] @ ''import a.b'')
        [Other, Import [Alias ''a'' None], Import [Alias ''a.b'' None], Other, Other])
     [(''a'', ''a'')]
   = Inr (({''a''}, {''a''}), [])"
  by (simp add: parse_imports_def walk_imports_def import_alias_def is_internal_def
      truthy_def endswith_def)

text \<open>
  C1, amended. A string that is in both sets returned by \<^verbatim>\<open>parse_imports\<close> is a
  key of the catalog that contains no dot; so the two sets are disjoint whenever every
  key of the catalog contains a dot.
\<close>

theorem deps_overlap_only_in_dotless_keys:
  "case parse_imports filepath file cat of
     Inr resolved \<Rightarrow>
       fst (fst resolved) \<inter> snd (fst resolved)
         \<subseteq> {k \<in> fst ` set cat. CHR ''.'' \<notin> set k}
       \<and> ((\<forall>k \<in> fst ` set cat. CHR ''.'' \<in> set k) \<longrightarrow>
            fst (fst resolved) \<inter> snd (fst resolved) = {})
   | Inl e \<Rightarrow> (\<exists>source. file = Uncaught source e)"
proof -
  have overlap: "fst d \<inter> snd d \<subseteq> {k \<in> fst ` set cat. CHR ''.'' \<notin> set k}
       \<and> ((\<forall>k \<in> fst ` set cat. CHR ''.'' \<in> set k) \<longrightarrow> fst d \<inter> snd d = {})"
    if int: "fst d \<subseteq> fst ` set cat" and ext: "\<forall>x \<in> snd d. CHR ''.'' \<notin> set x"
    for d :: deps
  proof -
    from int ext have sub: "fst d \<inter> snd d \<subseteq> {k \<in> fst ` set cat. CHR ''.'' \<notin> set k}"
      by blast
    then have "fst d \<inter> snd d = {}" if "\<forall>k \<in> fst ` set cat. CHR ''.'' \<in> set k"
      using that by blast
    with sub show ?thesis by blast
  qed
  show ?thesis
  proof (cases "file")
    case (Unreadable e)
    with overlap [of "({}, {})"] show ?thesis by (simp add: parse_imports_def)
  next
    case (Malformed source e)
    with overlap [of "({}, {})"] show ?thesis by (simp add: parse_imports_def)
  next
    case (Uncaught source e)
    then show ?thesis by (simp add: parse_imports_def)
  next
    case (Module source tree)
    with overlap [OF walk_internal_keys walk_external_no_dot, of tree]
    show ?thesis by (simp add: parse_imports_Module)
  qed
qed

theorem deps_overlap_only_in_dotless_keys_witness:
  "case parse_imports [''proj'', ''m.py'']
        (Module (''import base.bots'' @ [CHR 0x0A] @ ''import base.os'')
           [Other, Import [Alias ''base.bots'' None], Import [Alias ''base.os'' None],
            Other, Other])
        [(''base.bots'', ''base/bots'')] of
     Inr resolved \<Rightarrow>
       fst (fst resolved) \<inter> snd (fst resolved) = {}
       \<and> fst (fst resolved) \<noteq> {} \<and> snd (fst resolved) \<noteq> {}
   | Inl e \<Rightarrow> False"
proof -
  have returns: "parse_imports [''proj'', ''m.py'']
        (Module (''import base.bots'' @ [CHR 0x0A] @ ''import base.os'')
           [Other, Import [Alias ''base.bots'' None], Import [Alias ''base.os'' None],
            Other, Other])
        [(''base.bots'', ''base/bots'')]
      = Inr (({''base.bots''}, {''base''}), [])"
    by (simp add: parse_imports_def walk_imports_def import_alias_def is_internal_def
        truthy_def endswith_def)
  from deps_overlap_only_in_dotless_keys [where filepath = "[''proj'', ''m.py'']"
      and ?file = "Module (''import base.bots'' @ [CHR 0x0A] @ ''import base.os'')
           [Other, Import [Alias ''base.bots'' None], Import [Alias ''base.os'' None],
            Other, Other]"
      and cat = "[(''base.bots'', ''base/bots'')]"]
  show ?thesis unfolding returns by simp
qed

lemma from_alias_named:
  assumes "M \<noteq> []" "name a \<noteq> ''*''"
  shows "from_alias cat M d a =
     (case is_internal cat (M @ ''.'' @ name a) of
        Some k \<Rightarrow> (insert k (fst d), snd d)
      | None \<Rightarrow>
          (case is_internal cat M of
             Some k \<Rightarrow> (insert k (fst d), snd d)
           | None \<Rightarrow> (fst d, insert (takeWhile (\<lambda>c. c \<noteq> CHR ''.'') M) (snd d))))"
proof -
  have c: "M @ ''.'' @ name a \<noteq> []" by simp
  show ?thesis
    using truthy_nonempty [OF c, of cat] truthy_nonempty [OF assms(1), of cat] assms
    by (auto simp: from_alias_cases split: option.splits)
qed

lemma from_alias_bare:
  assumes "name a \<noteq> ''*''" "is_internal cat (name a) = None"
  shows "from_alias cat [] d a
         = (fst d, insert (takeWhile (\<lambda>c. c \<noteq> CHR ''.'') (name a)) (snd d))"
  using assms by (simp add: from_alias_cases truthy_def)

lemma import_alias_named:
  assumes "name a \<noteq> []"
  shows "import_alias cat d a =
     (case is_internal cat (name a) of
        Some k \<Rightarrow> (insert k (fst d), snd d)
      | None \<Rightarrow> (fst d, insert (takeWhile (\<lambda>c. c \<noteq> CHR ''.'') (name a)) (snd d)))"
  using truthy_nonempty [OF assms, of cat]
  by (auto simp: import_alias_cases split: option.splits)

lemma walk_imports_skips_Other:
  "walk_imports cat tree = walk_imports cat (filter (\<lambda>n. n \<noteq> Other) tree)"
proof -
  have "foldl (visit cat) d tree = foldl (visit cat) d (filter (\<lambda>n. n \<noteq> Other) tree)" for d
    by (induction tree arbitrary: d) simp_all
  then show ?thesis by (simp add: walk_imports_def)
qed

lemma parse_imports_only:
  assumes "filter (\<lambda>n. n \<noteq> Other) tree = [n]"
  shows "parse_imports filepath (Module src tree) cat = Inr (visit cat ({}, {}) n, [])"
  unfolding parse_imports_Module
  by (subst walk_imports_skips_Other) (simp add: assms walk_imports_def)

section \<open>What each import clause records\<close>

text \<open>
  C3. For a from-import with module text \<open>M\<close> and an imported name \<open>A\<close> (at any
  level), the resolver records the match of \<open>M.A\<close> if there is one, otherwise the
  match of \<open>M\<close> if there is one, otherwise the text of \<open>M\<close> before its first dot
  as external. The first part is about a clause anywhere in a file, the second about a
  file with this one clause.
\<close>

theorem from_import_resolution:
  assumes "M \<noteq> []" and "name a \<noteq> ''*''"
  shows "(ImportFrom (Some M) nms lvl \<in> set tree \<and> a \<in> set nms \<longrightarrow>
            (\<exists>resolved. parse_imports filepath (Module src tree) cat = Inr (resolved, []) \<and>
               (case is_internal cat (M @ ''.'' @ name a) of
                  Some k \<Rightarrow> k \<in> fst resolved
                | None \<Rightarrow>
                    (case is_internal cat M of
                       Some k \<Rightarrow> k \<in> fst resolved
                     | None \<Rightarrow> takeWhile (\<lambda>c. c \<noteq> CHR ''.'') M \<in> snd resolved))))
       \<and> (filter (\<lambda>n. n \<noteq> Other) tree = [ImportFrom (Some M) [a] lvl] \<longrightarrow>
            parse_imports filepath (Module src tree) cat =
              Inr (case is_internal cat (M @ ''.'' @ name a) of
                     Some k \<Rightarrow> ({k}, {})
                   | None \<Rightarrow>
                       (case is_internal cat M of
                          Some k \<Rightarrow> ({k}, {})
                        | None \<Rightarrow> ({}, {takeWhile (\<lambda>c. c \<noteq> CHR ''.'') M})),
                   []))"
proof (intro conjI impI)
  assume "ImportFrom (Some M) nms lvl \<in> set tree \<and> a \<in> set nms"
  then obtain d where
    kept: "fst (from_alias cat (module_or_empty (Some M)) d a) \<subseteq> fst (walk_imports cat tree)"
          "snd (from_alias cat (module_or_empty (Some M)) d a) \<subseteq> snd (walk_imports cat tree)"
    using from_alias_kept [of "Some M" nms lvl tree a cat] by blast
  have m: "module_or_empty (Some M) = M"
    using assms(1) by (simp add: module_or_empty_def)
  from kept have "case is_internal cat (M @ ''.'' @ name a) of
                  Some k \<Rightarrow> k \<in> fst (walk_imports cat tree)
                | None \<Rightarrow>
                    (case is_internal cat M of
                       Some k \<Rightarrow> k \<in> fst (walk_imports cat tree)
                     | None \<Rightarrow> takeWhile (\<lambda>c. c \<noteq> CHR ''.'') M
                          \<in> snd (walk_imports cat tree))"
    unfolding m from_alias_named [OF assms]
    by (auto split: option.splits)
  with parse_imports_Module [of filepath src tree cat]
  show "\<exists>resolved. parse_imports filepath (Module src tree) cat = Inr (resolved, []) \<and>
               (case is_internal cat (M @ ''.'' @ name a) of
                  Some k \<Rightarrow> k \<in> fst resolved
                | None \<Rightarrow>
                    (case is_internal cat M of
                       Some k \<Rightarrow> k \<in> fst resolved
                     | None \<Rightarrow> takeWhile (\<lambda>c. c \<noteq> CHR ''.'') M \<in> snd resolved))"
    by blast
next
  assume only: "filter (\<lambda>n. n \<noteq> Other) tree = [ImportFrom (Some M) [a] lvl]"
  show "parse_imports filepath (Module src tree) cat =
              Inr (case is_internal cat (M @ ''.'' @ name a) of
                     Some k \<Rightarrow> ({k}, {})
                   | None \<Rightarrow>
                       (case is_internal cat M of
                          Some k \<Rightarrow> ({k}, {})
                        | None \<Rightarrow> ({}, {takeWhile (\<lambda>c. c \<noteq> CHR ''.'') M})),
                   [])"
    unfolding parse_imports_only [OF only] using assms(1)
    by (simp add: module_or_empty_def from_alias_named [OF assms] split: option.splits)
qed

theorem from_import_resolution_witness:
  "parse_imports [''proj'', ''m.py'']
          (Module ''from pkg import mod''
             [Other, ImportFrom (Some ''pkg'') [Alias ''mod'' None] 0, Other])
          [(''pkg.mod'', ''pkg/mod'')] = Inr (({''pkg.mod''}, {}), [])
   \<and> parse_imports [''proj'', ''m.py'']
          (Module ''from pkg import mod''
             [Other, ImportFrom (Some ''pkg'') [Alias ''mod'' None] 0, Other])
          [(''pkg'', ''pkg'')] = Inr (({''pkg''}, {}), [])
   \<and> (\<exists>resolved. parse_imports [''proj'', ''m.py'']
          (Module ''from os.path import join''
             [Other, ImportFrom (Some ''os.path'') [Alias ''join'' None] 0, Other])
          [(''pkg'', ''pkg'')] = Inr (resolved, []) \<and> ''os'' \<in> snd resolved)"
proof (intro conjI)
  show "parse_imports [''proj'', ''m.py'']
          (Module ''from pkg import mod''
             [Other, ImportFrom (Some ''pkg'') [Alias ''mod'' None] 0, Other])
          [(''pkg.mod'', ''pkg/mod'')] = Inr (({''pkg.mod''}, {}), [])"
    using from_import_resolution [where M = "''pkg''" and a = "Alias ''mod'' None"
        and lvl = 0 and cat = "[(''pkg.mod'', ''pkg/mod'')]"
        and tree = "[Other, ImportFrom (Some ''pkg'') [Alias ''mod'' None] 0, Other]"
        and filepath = "[''proj'', ''m.py'']" and src = "''from pkg import mod''"]
    by (simp add: is_internal_def)
  show "parse_imports [''proj'', ''m.py'']
          (Module ''from pkg import mod''
             [Other, ImportFrom (Some ''pkg'') [Alias ''mod'' None] 0, Other])
          [(''pkg'', ''pkg'')] = Inr (({''pkg''}, {}), [])"
    using from_import_resolution [where M = "''pkg''" and a = "Alias ''mod'' None"
        and lvl = 0 and cat = "[(''pkg'', ''pkg'')]"
        and tree = "[Other, ImportFrom (Some ''pkg'') [Alias ''mod'' None] 0, Other]"
        and filepath = "[''proj'', ''m.py'']" and src = "''from pkg import mod''"]
    by (simp add: is_internal_def endswith_def)
  show "\<exists>resolved. parse_imports [''proj'', ''m.py'']
          (Module ''from os.path import join''
             [Other, ImportFrom (Some ''os.path'') [Alias ''join'' None] 0, Other])
          [(''pkg'', ''pkg'')] = Inr (resolved, []) \<and> ''os'' \<in> snd resolved"
    using from_import_resolution [where M = "''os.path''" and a = "Alias ''join'' None"
        and nms = "[Alias ''join'' None]" and lvl = 0 and cat = "[(''pkg'', ''pkg'')]"
        and tree = "[Other, ImportFrom (Some ''os.path'') [Alias ''join'' None] 0, Other]"
        and filepath = "[''proj'', ''m.py'']" and src = "''from os.path import join''"]
    by (simp add: is_internal_def endswith_def)
qed

text \<open>
  C4. For a plain import of the dotted path \<open>X\<close>, the resolver records the match of
  \<open>X\<close> as internal if there is one, and otherwise the text of \<open>X\<close> before its first
  dot as external.
\<close>

theorem plain_import_resolution:
  assumes "name a \<noteq> []"
  shows "(Import nms \<in> set tree \<and> a \<in> set nms \<longrightarrow>
            (\<exists>resolved. parse_imports filepath (Module src tree) cat = Inr (resolved, []) \<and>
               (case is_internal cat (name a) of
                  Some k \<Rightarrow> k \<in> fst resolved
                | None \<Rightarrow> takeWhile (\<lambda>c. c \<noteq> CHR ''.'') (name a) \<in> snd resolved)))
       \<and> (filter (\<lambda>n. n \<noteq> Other) tree = [Import [a]] \<longrightarrow>
            parse_imports filepath (Module src tree) cat =
              Inr (case is_internal cat (name a) of
                     Some k \<Rightarrow> ({k}, {})
                   | None \<Rightarrow> ({}, {takeWhile (\<lambda>c. c \<noteq> CHR ''.'') (name a)}),
                   []))"
proof (intro conjI impI)
  assume "Import nms \<in> set tree \<and> a \<in> set nms"
  then obtain d where
    kept: "fst (import_alias cat d a) \<subseteq> fst (walk_imports cat tree)"
          "snd (import_alias cat d a) \<subseteq> snd (walk_imports cat tree)"
    using import_alias_kept [of nms tree a cat] by blast
  from kept have "case is_internal cat (name a) of
                  Some k \<Rightarrow> k \<in> fst (walk_imports cat tree)
                | None \<Rightarrow> takeWhile (\<lambda>c. c \<noteq> CHR ''.'') (name a)
                     \<in> snd (walk_imports cat tree)"
    unfolding import_alias_named [OF assms]
    by (auto split: option.splits)
  with parse_imports_Module [of filepath src tree cat]
  show "\<exists>resolved. parse_imports filepath (Module src tree) cat = Inr (resolved, []) \<and>
               (case is_internal cat (name a) of
                  Some k \<Rightarrow> k \<in> fst resolved
                | None \<Rightarrow> takeWhile (\<lambda>c. c \<noteq> CHR ''.'') (name a) \<in> snd resolved)"
    by blast
next
  assume only: "filter (\<lambda>n. n \<noteq> Other) tree = [Import [a]]"
  show "parse_imports filepath (Module src tree) cat =
              Inr (case is_internal cat (name a) of
                     Some k \<Rightarrow> ({k}, {})
                   | None \<Rightarrow> ({}, {takeWhile (\<lambda>c. c \<noteq> CHR ''.'') (name a)}),
                   [])"
    unfolding parse_imports_only [OF only]
    by (simp add: import_alias_named [OF assms] split: option.splits)
qed

theorem plain_import_resolution_witness:
  "parse_imports [''proj'', ''m.py'']
          (Module ''import pkg.mod'' [Other, Import [Alias ''pkg.mod'' None], Other])
          [(''pkg.mod'', ''pkg/mod'')] = Inr (({''pkg.mod''}, {}), [])
   \<and> (\<exists>resolved. parse_imports [''proj'', ''m.py'']
          (Module ''import os.path'' [Other, Import [Alias ''os.path'' None], Other])
          [(''pkg.mod'', ''pkg/mod'')] = Inr (resolved, []) \<and> ''os'' \<in> snd resolved)"
proof (intro conjI)
  show "parse_imports [''proj'', ''m.py'']
          (Module ''import pkg.mod'' [Other, Import [Alias ''pkg.mod'' None], Other])
          [(''pkg.mod'', ''pkg/mod'')] = Inr (({''pkg.mod''}, {}), [])"
    using plain_import_resolution [where a = "Alias ''pkg.mod'' None"
        and tree = "[Other, Import [Alias ''pkg.mod'' None], Other]"
        and cat = "[(''pkg.mod'', ''pkg/mod'')]"
        and filepath = "[''proj'', ''m.py'']" and src = "''import pkg.mod''"]
    by (simp add: is_internal_def)
  show "\<exists>resolved. parse_imports [''proj'', ''m.py'']
          (Module ''import os.path'' [Other, Import [Alias ''os.path'' None], Other])
          [(''pkg.mod'', ''pkg/mod'')] = Inr (resolved, []) \<and> ''os'' \<in> snd resolved"
    using plain_import_resolution [where a = "Alias ''os.path'' None"
        and nms = "[Alias ''os.path'' None]"
        and tree = "[Other, Import [Alias ''os.path'' None], Other]"
        and cat = "[(''pkg.mod'', ''pkg/mod'')]"
        and filepath = "[''proj'', ''m.py'']" and src = "''import os.path''"]
    by (simp add: is_internal_def endswith_def)
qed

text \<open>
  C10. For a from-import with no module (\<^verbatim>\<open>from . import A\<close>) whose name \<open>A\<close>
  matches nothing in the catalog, the resolver records the text of \<open>A\<close> before its
  first dot as external: the external set of a file with this one clause is that one
  string.
\<close>

theorem relative_import_without_module:
  assumes "name a \<noteq> ''*''" and "is_internal cat (name a) = None"
  shows "(ImportFrom None nms lvl \<in> set tree \<and> a \<in> set nms \<longrightarrow>
            (\<exists>resolved. parse_imports filepath (Module src tree) cat = Inr (resolved, []) \<and>
               takeWhile (\<lambda>c. c \<noteq> CHR ''.'') (name a) \<in> snd resolved))
       \<and> (filter (\<lambda>n. n \<noteq> Other) tree = [ImportFrom None [a] lvl] \<longrightarrow>
            parse_imports filepath (Module src tree) cat
              = Inr (({}, {takeWhile (\<lambda>c. c \<noteq> CHR ''.'') (name a)}), []))"
proof (intro conjI impI)
  assume "ImportFrom None nms lvl \<in> set tree \<and> a \<in> set nms"
  then obtain d where
    kept: "snd (from_alias cat (module_or_empty None) d a) \<subseteq> snd (walk_imports cat tree)"
    using from_alias_kept [of None nms lvl tree a cat] by blast
  have m: "module_or_empty None = []"
    by (simp add: module_or_empty_def)
  from kept have "takeWhile (\<lambda>c. c \<noteq> CHR ''.'') (name a) \<in> snd (walk_imports cat tree)"
    unfolding m from_alias_bare [OF assms] by simp
  with parse_imports_Module [of filepath src tree cat]
  show "\<exists>resolved. parse_imports filepath (Module src tree) cat = Inr (resolved, []) \<and>
               takeWhile (\<lambda>c. c \<noteq> CHR ''.'') (name a) \<in> snd resolved"
    by blast
next
  assume only: "filter (\<lambda>n. n \<noteq> Other) tree = [ImportFrom None [a] lvl]"
  show "parse_imports filepath (Module src tree) cat
           = Inr (({}, {takeWhile (\<lambda>c. c \<noteq> CHR ''.'') (name a)}), [])"
    unfolding parse_imports_only [OF only]
    by (simp add: module_or_empty_def from_alias_bare [OF assms])
qed

theorem relative_import_without_module_witness:
  "parse_imports [''proj'', ''pkg'', ''a.py'']
          (Module ''from . import helper''
             [Other, ImportFrom None [Alias ''helper'' None] 1, Other])
          [(''pkg.sibling'', ''pkg/sibling'')] = Inr (({}, {''helper''}), [])"
  using relative_import_without_module [where a = "Alias ''helper'' None"
      and cat = "[(''pkg.sibling'', ''pkg/sibling'')]" and lvl = 1
      and tree = "[Other, ImportFrom None [Alias ''helper'' None] 1, Other]"
      and filepath = "[''proj'', ''pkg'', ''a.py'']" and src = "''from . import helper''"]
  by (simp add: is_internal_def endswith_def)

text \<open>
  C8. A wildcard from-import adds nothing to either set: a file gives the same two sets
  with and without it, and a file whose only imports are wildcard from-imports gives two
  empty sets (and no diagnostic).
\<close>

theorem wildcard_import_adds_nothing:
  "parse_imports filepath
          (Module src (before @ ImportFrom m [Alias ''*'' asn] lvl # after)) cat
     = parse_imports filepath (Module src' (before @ after)) cat
   \<and> ((\<forall>n \<in> set tree. n = Other \<or> (\<exists>m asn lvl. n = ImportFrom m [Alias ''*'' asn] lvl)) \<longrightarrow>
        parse_imports filepath (Module src tree) cat = Inr (({}, {}), []))"
proof (intro conjI impI)
  show "parse_imports filepath
          (Module src (before @ ImportFrom m [Alias ''*'' asn] lvl # after)) cat
     = parse_imports filepath (Module src' (before @ after)) cat"
    by (simp add: parse_imports_Module walk_imports_def from_alias_def)
next
  assume only: "\<forall>n \<in> set tree. n = Other \<or> (\<exists>m asn lvl. n = ImportFrom m [Alias ''*'' asn] lvl)"
  have "foldl (visit cat) d tree = d" for d
    using only
  proof (induction tree arbitrary: d)
    case Nil
    show ?case by simp
  next
    case (Cons n tree)
    from Cons.prems have "visit cat d n = d"
      by (auto simp: from_alias_def)
    with Cons show ?case by simp
  qed
  then show "parse_imports filepath (Module src tree) cat = Inr (({}, {}), [])"
    by (simp add: parse_imports_Module walk_imports_def)
qed

theorem wildcard_import_adds_nothing_witness:
  "parse_imports [''proj'', ''m.py'']
          (Module ''from pkg import *''
             [Other, ImportFrom (Some ''pkg'') [Alias ''*'' None] 0, Other])
          [(''pkg'', ''pkg'')] = Inr (({}, {}), [])"
  using wildcard_import_adds_nothing [where filepath = "[''proj'', ''m.py'']"
      and src = "''from pkg import *''" and cat = "[(''pkg'', ''pkg'')]"
      and tree = "[Other, ImportFrom (Some ''pkg'') [Alias ''*'' None] 0, Other]"]
  by simp

section \<open>The catalog of a project tree\<close>

subsection \<open>The guards of the scan\<close>

lemma venv_in_parts: "''.venv'' \<in> set (parts p) \<longleftrightarrow> ''.venv'' \<in> set p"
  by (simp add: parts_def)

lemma path_name_append: "rel \<noteq> [] \<Longrightarrow> path_name (root @ rel) = last rel"
  by (simp add: path_name_def)

lemma module_entry_None_iff:
  assumes "rel \<noteq> []"
  shows "module_entry root rel = None
         \<longleftrightarrow> ''.venv'' \<in> set (root @ rel) \<or> (\<exists>rest. last rel = ''__'' @ rest)"
  using assms
  by (simp add: module_entry_def Let_def venv_in_parts path_name_append startswith_iff
      del: set_append)

lemma module_entry_Some:
  assumes "module_entry root rel = Some (k, v)"
  shows "k = replace_slash (as_posix (with_suffix rel [])) \<and> v = as_posix (with_suffix rel [])"
proof -
  from assms have ok: "\<not> startswith (path_name (root @ rel)) ''__''"
    and kv: "k = mod_name_of root rel" "v = note_of rel"
    by (auto simp: module_entry_def Let_def split: if_splits)
  from ok have "path_name (root @ rel) \<noteq> ''__init__.py''"
    by (auto simp: startswith_def)
  with kv show ?thesis by (simp add: mod_name_of_def note_of_def)
qed

lemma matches_py_iff: "matches_py p \<longleftrightarrow> p \<noteq> [] \<and> (\<exists>stem. last p = stem @ ''.py'')"
  by (simp add: matches_py_def endswith_iff)

subsection \<open>The scan as a sequence of assignments\<close>

lemma scan_skip: "module_entry root rel = None \<Longrightarrow> scan_file root m rel = m"
  by (simp add: scan_file_def)

lemma scan_filter:
  assumes "\<And>p. \<not> keep p \<Longrightarrow> module_entry root p = None"
  shows "foldl (scan_file root) m (filter keep ps) = foldl (scan_file root) m ps"
  using assms by (induction ps arbitrary: m) (simp_all add: scan_skip)

lemma scan_eligible:
  "foldl (scan_file root) m ps
   = foldl (\<lambda>m rel. AList.update (mod_name_of root rel) (note_of rel) m) m
       (filter (\<lambda>rel. module_entry root rel \<noteq> None) ps)"
proof (induction ps arbitrary: m)
  case Nil
  show ?case by simp
next
  case (Cons p ps)
  show ?case
  proof (cases "module_entry root p")
    case None
    with Cons show ?thesis by (simp add: scan_skip)
  next
    case (Some e)
    then have "scan_file root m p = AList.update (mod_name_of root p) (note_of p) m"
      by (auto simp: scan_file_def module_entry_def Let_def split: if_splits)
    with Some Cons show ?thesis by simp
  qed
qed

lemma updates_distinct:
  "distinct (map fst m) \<Longrightarrow>
   distinct (map fst (foldl (\<lambda>m x. AList.update (key x) (val x) m) m xs))"
  by (induction xs arbitrary: m) (simp_all add: distinct_update)

lemma updates_map_of:
  "map_of (foldl (\<lambda>m x. AList.update (key x) (val x) m) m xs)
   = map_of m ++ map_of (rev (map (\<lambda>x. (key x, val x)) xs))"
proof (induction xs arbitrary: m)
  case Nil
  show ?case by simp
next
  case (Cons x xs)
  have "map_of (foldl (\<lambda>m x. AList.update (key x) (val x) m) m (x # xs))
        = map_of (AList.update (key x) (val x) m) ++ map_of (rev (map (\<lambda>x. (key x, val x)) xs))"
    using Cons [of "AList.update (key x) (val x) m"] by simp
  also have "\<dots> = map_of m ++ map_of (rev (map (\<lambda>x. (key x, val x)) (x # xs)))"
    by (simp add: update_conv' map_add_upd_left fun_eq_iff map_add_def split: option.splits)
  finally show ?case .
qed

lemma updates_fresh:
  "distinct (map fst m @ map key xs) \<Longrightarrow>
   foldl (\<lambda>m x. AList.update (key x) (val x) m) m xs = m @ map (\<lambda>x. (key x, val x)) xs"
proof (induction xs arbitrary: m)
  case Nil
  show ?case by simp
next
  case (Cons x xs)
  from Cons.prems have fresh: "key x \<notin> fst ` set m" by auto
  then have upd: "AList.update (key x) (val x) m = m @ [(key x, val x)]"
    by (induction m) auto
  from Cons.prems have "distinct (map fst (m @ [(key x, val x)]) @ map key xs)" by auto
  from Cons.IH [OF this] upd show ?case by simp
qed

lemma map_of_rev_last:
  "map_of (rev (map (\<lambda>x. (key x, val x)) xs)) k = Some v
   \<longleftrightarrow> (\<exists>before x after. xs = before @ x # after \<and> key x = k \<and> val x = v
         \<and> k \<notin> key ` set after)"
proof (induction xs rule: rev_induct)
  case Nil
  show ?case by simp
next
  case (snoc y ys)
  show ?case
  proof (cases "key y = k")
    case True
    have "(\<exists>before x after. ys @ [y] = before @ x # after \<and> key x = k \<and> val x = v
         \<and> k \<notin> key ` set after) \<longleftrightarrow> val y = v"
    proof
      assume "\<exists>before x after. ys @ [y] = before @ x # after \<and> key x = k \<and> val x = v
         \<and> k \<notin> key ` set after"
      then obtain before x after where d: "ys @ [y] = before @ x # after" "key x = k"
        "val x = v" "k \<notin> key ` set after" by blast
      show "val y = v"
      proof (cases after rule: rev_cases)
        case Nil
        with d show ?thesis by simp
      next
        case (snoc as a)
        with d(1) have "a = y" by simp
        with snoc d(4) True show ?thesis by simp
      qed
    next
      assume "val y = v"
      with True have "ys @ [y] = ys @ y # [] \<and> key y = k \<and> val y = v \<and> k \<notin> key ` set []"
        by simp
      then show "\<exists>before x after. ys @ [y] = before @ x # after \<and> key x = k \<and> val x = v
         \<and> k \<notin> key ` set after" by blast
    qed
    with True show ?thesis by simp
  next
    case False
    have "(\<exists>before x after. ys @ [y] = before @ x # after \<and> key x = k \<and> val x = v
         \<and> k \<notin> key ` set after)
      \<longleftrightarrow> (\<exists>before x after. ys = before @ x # after \<and> key x = k \<and> val x = v
         \<and> k \<notin> key ` set after)"
    proof
      assume "\<exists>before x after. ys @ [y] = before @ x # after \<and> key x = k \<and> val x = v
         \<and> k \<notin> key ` set after"
      then obtain before x after where d: "ys @ [y] = before @ x # after" "key x = k"
        "val x = v" "k \<notin> key ` set after" by blast
      show "\<exists>before x after. ys = before @ x # after \<and> key x = k \<and> val x = v
         \<and> k \<notin> key ` set after"
      proof (cases after rule: rev_cases)
        case Nil
        with d False show ?thesis by simp
      next
        case (snoc as a)
        with d(1) have "ys = before @ x # as" by simp
        moreover from snoc d(4) have "k \<notin> key ` set as" by simp
        ultimately show ?thesis using d(2,3) by blast
      qed
    next
      assume "\<exists>before x after. ys = before @ x # after \<and> key x = k \<and> val x = v
         \<and> k \<notin> key ` set after"
      then obtain before x after where d: "ys = before @ x # after" "key x = k"
        "val x = v" "k \<notin> key ` set after" by blast
      then have "ys @ [y] = before @ x # (after @ [y]) \<and> key x = k \<and> val x = v
         \<and> k \<notin> key ` set (after @ [y])"
        using False by auto
      then show "\<exists>before x after. ys @ [y] = before @ x # after \<and> key x = k \<and> val x = v
         \<and> k \<notin> key ` set after" by blast
    qed
    with False snoc show ?thesis by simp
  qed
qed

lemma catalog_as_updates:
  "get_internal_modules root tree
   = foldl (\<lambda>m rel. AList.update (mod_name_of root rel) (note_of rel) m) []
       (filter (\<lambda>rel. module_entry root rel \<noteq> None) (rglob_py tree))"
  unfolding get_internal_modules_def by (rule scan_eligible)

text \<open>
  A package initializer produces no entry. Its name starts with two underscores, so the
  guard of line 28 skips it before line 31 can look at its name: a project whose only
  file is \<^verbatim>\<open>pkg/__init__.py\<close> has an empty catalog.
\<close>

theorem initializer_file_skipped:
  "module_entry [''home'', ''proj''] [''pkg'', ''__init__.py''] = None
   \<and> get_internal_modules [''home'', ''proj''] [[''pkg'', ''__init__.py'']] = []"
  by (simp add: get_internal_modules_def rglob_py_def matches_py_def endswith_def
      scan_file_def module_entry_def parts_def path_name_def startswith_def)

text \<open>
  C5, amended. No package initializer produces a catalog entry: the scan skips every file
  named \<^verbatim>\<open>__init__.py\<close>, the catalog of a tree is the catalog of the tree without
  its initializers, and every entry that is produced carries the dotted name and the note
  path of the ordinary rule (the relative path without its suffix).
\<close>

theorem initializer_files_produce_no_entry:
  "(rel \<noteq> [] \<and> last rel = ''__init__.py'' \<longrightarrow> module_entry project_root rel = None)
   \<and> get_internal_modules project_root tree
       = get_internal_modules project_root
           (filter (\<lambda>p. \<not> (p \<noteq> [] \<and> last p = ''__init__.py'')) tree)
   \<and> (module_entry project_root rel = Some (k, v) \<longrightarrow>
        k = replace_slash (as_posix (with_suffix rel [])) \<and> v = as_posix (with_suffix rel []))"
proof -
  have skipped: "module_entry project_root p = None" if "p \<noteq> [] \<and> last p = ''__init__.py''" for p
  proof -
    from that have "last p = ''__'' @ ''init__.py''" by simp
    then have "\<exists>rest. last p = ''__'' @ rest" ..
    with that show ?thesis by (simp add: module_entry_None_iff)
  qed
  have "foldl (scan_file project_root) []
          (filter (\<lambda>p. \<not> (p \<noteq> [] \<and> last p = ''__init__.py'')) (rglob_py tree))
        = foldl (scan_file project_root) [] (rglob_py tree)"
    by (rule scan_filter) (use skipped in blast)
  moreover have "rglob_py (filter (\<lambda>p. \<not> (p \<noteq> [] \<and> last p = ''__init__.py'')) tree)
        = filter (\<lambda>p. \<not> (p \<noteq> [] \<and> last p = ''__init__.py'')) (rglob_py tree)"
    by (simp add: rglob_py_def conj_commute)
  ultimately have same: "get_internal_modules project_root tree
       = get_internal_modules project_root
           (filter (\<lambda>p. \<not> (p \<noteq> [] \<and> last p = ''__init__.py'')) tree)"
    by (simp add: get_internal_modules_def)
  have named: "k = replace_slash (as_posix (with_suffix rel [])) \<and> v = as_posix (with_suffix rel [])"
    if "module_entry project_root rel = Some (k, v)"
    using that by (rule module_entry_Some)
  from skipped [of rel] same named show ?thesis by blast
qed

theorem initializer_files_produce_no_entry_witness:
  "module_entry [''home'', ''proj''] [''pkg'', ''__init__.py''] = None
   \<and> get_internal_modules [''home'', ''proj'']
        [[''pkg'', ''__init__.py''], [''pkg'', ''mod.py'']]
     = get_internal_modules [''home'', ''proj''] [[''pkg'', ''mod.py'']]
   \<and> module_entry [''home'', ''proj''] [''pkg'', ''mod.py''] = Some (''pkg.mod'', ''pkg/mod'')"
proof (intro conjI)
  show "module_entry [''home'', ''proj''] [''pkg'', ''__init__.py''] = None"
    using initializer_files_produce_no_entry
      [where rel = "[''pkg'', ''__init__.py'']" and project_root = "[''home'', ''proj'']"]
    by simp
  show "get_internal_modules [''home'', ''proj'']
        [[''pkg'', ''__init__.py''], [''pkg'', ''mod.py'']]
     = get_internal_modules [''home'', ''proj''] [[''pkg'', ''mod.py'']]"
    using initializer_files_produce_no_entry
      [where tree = "[[''pkg'', ''__init__.py''], [''pkg'', ''mod.py'']]"
         and project_root = "[''home'', ''proj'']"]
    by simp
  have "module_entry [''home'', ''proj''] [''pkg'', ''mod.py'']
        = Some (mod_name_of [''home'', ''proj''] [''pkg'', ''mod.py''], note_of [''pkg'', ''mod.py''])"
    by (simp add: module_entry_def parts_def path_name_def startswith_def)
  with initializer_files_produce_no_entry
      [where rel = "[''pkg'', ''mod.py'']" and project_root = "[''home'', ''proj'']"
         and k = "mod_name_of [''home'', ''proj''] [''pkg'', ''mod.py'']"
         and v = "note_of [''pkg'', ''mod.py'']"]
  show "module_entry [''home'', ''proj''] [''pkg'', ''mod.py''] = Some (''pkg.mod'', ''pkg/mod'')"
    by (simp add: with_suffix_def path_name_def path_suffix_def rfind_def parent_def
        as_posix_def replace_slash_def)
qed

text \<open>
  Two eligible files can have the same dotted name: \<^verbatim>\<open>a/b.py\<close> and \<^verbatim>\<open>a.b.py\<close>
  are both \<^verbatim>\<open>a.b\<close>. The second assignment overwrites the first, and in either order
  of the walk one of the two files is not in the catalog.
\<close>

theorem eligible_file_overwritten:
  "rglob_py [[''a'', ''b.py''], [''a.b.py'']] = [[''a'', ''b.py''], [''a.b.py'']]
   \<and> module_entry [''home'', ''proj''] [''a'', ''b.py''] = Some (''a.b'', ''a/b'')
   \<and> module_entry [''home'', ''proj''] [''a.b.py''] = Some (''a.b'', ''a.b'')
   \<and> get_internal_modules [''home'', ''proj''] [[''a'', ''b.py''], [''a.b.py'']]
       = [(''a.b'', ''a.b'')]
   \<and> get_internal_modules [''home'', ''proj''] [[''a.b.py''], [''a'', ''b.py'']]
       = [(''a.b'', ''a/b'')]"
  by (simp add: get_internal_modules_def rglob_py_def matches_py_def endswith_def
      scan_file_def module_entry_def parts_def path_name_def startswith_def mod_name_of_def
      note_of_def with_suffix_def path_suffix_def rfind_def parent_def as_posix_def
      replace_slash_def)

text \<open>
  C6, amended. A file produces a catalog entry if and only if its name ends with
  \<^verbatim>\<open>.py\<close>, no component of its path is \<^verbatim>\<open>.venv\<close> and its name does not start with
  two underscores. The keys of the catalog are distinct; the catalog holds the pair of
  dotted name and note path of an eligible file exactly when no later eligible file of the
  walk has the same dotted name; and when the dotted names of the eligible files are
  pairwise different, the catalog is the list of their pairs, one for each file, in the
  order of the walk.
\<close>

theorem catalog_of_eligible_files:
  assumes el: "eligible = filter (\<lambda>rel. module_entry project_root rel \<noteq> None) (rglob_py tree)"
    and cat: "cat = get_internal_modules project_root tree"
  shows "(rel \<in> set eligible \<longleftrightarrow>
            rel \<in> set tree \<and> rel \<noteq> [] \<and> (\<exists>stem. last rel = stem @ ''.py'')
            \<and> ''.venv'' \<notin> set (project_root @ rel) \<and> \<not> (\<exists>rest. last rel = ''__'' @ rest))
       \<and> distinct (map fst cat)
       \<and> ((k, v) \<in> set cat \<longleftrightarrow>
            (\<exists>before rel after. eligible = before @ rel # after
               \<and> mod_name_of project_root rel = k \<and> note_of rel = v
               \<and> k \<notin> mod_name_of project_root ` set after))
       \<and> (distinct (map (mod_name_of project_root) eligible) \<longrightarrow>
            cat = map (\<lambda>rel. (mod_name_of project_root rel, note_of rel)) eligible)"
proof (intro conjI impI)
  show "rel \<in> set eligible \<longleftrightarrow>
            rel \<in> set tree \<and> rel \<noteq> [] \<and> (\<exists>stem. last rel = stem @ ''.py'')
            \<and> ''.venv'' \<notin> set (project_root @ rel) \<and> \<not> (\<exists>rest. last rel = ''__'' @ rest)"
  proof (cases "rel = []")
    case True
    then show ?thesis by (simp add: el rglob_py_def matches_py_def)
  next
    case False
    have "rel \<in> set eligible \<longleftrightarrow>
            rel \<in> set tree \<and> matches_py rel \<and> module_entry project_root rel \<noteq> None"
      by (auto simp: el rglob_py_def)
    with False show ?thesis
      unfolding matches_py_iff module_entry_None_iff [OF False] by blast
  qed
  have upd: "cat = foldl (\<lambda>m rel. AList.update (mod_name_of project_root rel) (note_of rel) m)
                      [] eligible"
    unfolding cat el by (rule catalog_as_updates)
  show dist: "distinct (map fst cat)"
    unfolding upd by (rule updates_distinct) simp
  have "(k, v) \<in> set cat \<longleftrightarrow> map_of cat k = Some v"
    using dist by simp
  also have "\<dots> \<longleftrightarrow> map_of (rev (map (\<lambda>rel. (mod_name_of project_root rel, note_of rel))
                                   eligible)) k = Some v"
    unfolding upd updates_map_of by simp
  also have "\<dots> \<longleftrightarrow> (\<exists>before rel after. eligible = before @ rel # after
               \<and> mod_name_of project_root rel = k \<and> note_of rel = v
               \<and> k \<notin> mod_name_of project_root ` set after)"
    by (rule map_of_rev_last)
  finally show "(k, v) \<in> set cat \<longleftrightarrow>
            (\<exists>before rel after. eligible = before @ rel # after
               \<and> mod_name_of project_root rel = k \<and> note_of rel = v
               \<and> k \<notin> mod_name_of project_root ` set after)" .
  show "cat = map (\<lambda>rel. (mod_name_of project_root rel, note_of rel)) eligible"
    if "distinct (map (mod_name_of project_root) eligible)"
    unfolding upd using updates_fresh [of "[]" "mod_name_of project_root" eligible note_of] that
    by simp
qed

theorem catalog_of_eligible_files_witness:
  "get_internal_modules [''home'', ''proj'']
     [[''base'', ''bots.py''], [''base'', ''__init__.py''], [''.venv'', ''x.py''],
      [''README.md''], [''main.py'']]
   = [(''base.bots'', ''base/bots''), (''main'', ''main'')]"
proof -
  let ?root = "[''home'', ''proj'']"
  let ?tree = "[[''base'', ''bots.py''], [''base'', ''__init__.py''], [''.venv'', ''x.py''],
      [''README.md''], [''main.py'']]"
  have el: "[[''base'', ''bots.py''], [''main.py'']]
            = filter (\<lambda>rel. module_entry ?root rel \<noteq> None) (rglob_py ?tree)"
    by (simp add: rglob_py_def matches_py_def endswith_def module_entry_def parts_def
        path_name_def startswith_def)
  have names: "mod_name_of ?root [''base'', ''bots.py''] = ''base.bots''"
    "mod_name_of ?root [''main.py''] = ''main''"
    "note_of [''base'', ''bots.py''] = ''base/bots''" "note_of [''main.py''] = ''main''"
    by (simp_all add: mod_name_of_def note_of_def with_suffix_def path_name_def
        path_suffix_def rfind_def parent_def as_posix_def replace_slash_def)
  from catalog_of_eligible_files [OF el refl]
  have "distinct (map (mod_name_of ?root) [[''base'', ''bots.py''], [''main.py'']]) \<longrightarrow>
        get_internal_modules ?root ?tree
        = map (\<lambda>rel. (mod_name_of ?root rel, note_of rel)) [[''base'', ''bots.py''], [''main.py'']]"
    by blast
  then show ?thesis by (simp add: names)
qed

subsection \<open>The run, file by file\<close>

lemma write_node_skip:
  "module_entry root (fst entry) = None \<Longrightarrow> write_node root vault cat out entry = out"
  by (auto simp: write_node_def module_entry_def Let_def split: if_splits)

lemma write_node_done:
  assumes "module_entry root (fst entry) \<noteq> None"
    and "snd (snd entry) = NoteWritten"
    and "parse_imports (root @ fst entry) (fst (snd entry)) cat = Inr (d, diag)"
  shows "write_node root vault cat out entry =
     out\<lparr>made_dirs := made_dirs out @ [str_path (parent (vault @ with_suffix (fst entry) ''.md''))],
         errors := errors out @ diag,
         written := written out @
           [(str_path (vault @ with_suffix (fst entry) ''.md''), render_note cat (fst entry) d)],
         printed := printed out @
           [''Generated node: '' @ str_path (vault @ with_suffix (fst entry) ''.md'')]\<rparr>"
  using assms by (auto simp: write_node_def module_entry_def Let_def split: if_splits)

lemma parse_imports_returns:
  assumes "\<forall>src x. file \<noteq> Uncaught src x"
  shows "\<exists>d diag. parse_imports fp file cat = Inr (d, diag)"
  using assms by (cases "file") (simp_all add: parse_imports_def)

lemma smooth_round:
  assumes "module_entry root (fst entry) \<noteq> None \<longrightarrow>
             snd (snd entry) = NoteWritten \<and> (\<forall>src x. fst (snd entry) \<noteq> Uncaught src x)"
  shows "raised (write_node root vault cat out entry) = raised out
       \<and> map fst (written (write_node root vault cat out entry))
           = map fst (written out) @
             (if module_entry root (fst entry) \<noteq> None
              then [str_path (vault @ with_suffix (fst entry) ''.md'')] else [])
       \<and> set (written out) \<subseteq> set (written (write_node root vault cat out entry))
       \<and> set (errors out) \<subseteq> set (errors (write_node root vault cat out entry))"
proof (cases "module_entry root (fst entry) = None")
  case True
  then show ?thesis by (simp add: write_node_skip)
next
  case False
  with assms have io: "snd (snd entry) = NoteWritten"
    and nc: "\<forall>src x. fst (snd entry) \<noteq> Uncaught src x" by auto
  from parse_imports_returns [OF nc] obtain d diag
    where "parse_imports (root @ fst entry) (fst (snd entry)) cat = Inr (d, diag)" by blast
  from write_node_done [OF False io this] False show ?thesis by auto
qed

lemma smooth_run:
  assumes "\<forall>entry \<in> set es. module_entry root (fst entry) \<noteq> None \<longrightarrow>
             snd (snd entry) = NoteWritten \<and> (\<forall>src x. fst (snd entry) \<noteq> Uncaught src x)"
    and "raised out = None"
  shows "raised (write_nodes_loop root vault cat out es) = None
       \<and> map fst (written (write_nodes_loop root vault cat out es))
           = map fst (written out) @
             map (\<lambda>entry. str_path (vault @ with_suffix (fst entry) ''.md''))
               (filter (\<lambda>entry. module_entry root (fst entry) \<noteq> None) es)
       \<and> set (written out) \<subseteq> set (written (write_nodes_loop root vault cat out es))
       \<and> set (errors out) \<subseteq> set (errors (write_nodes_loop root vault cat out es))"
  using assms
proof (induction es arbitrary: out)
  case Nil
  then show ?case by simp
next
  case (Cons entry es)
  let ?out = "write_node root vault cat out entry"
  from Cons.prems(1) have here: "module_entry root (fst entry) \<noteq> None \<longrightarrow>
       snd (snd entry) = NoteWritten \<and> (\<forall>src x. fst (snd entry) \<noteq> Uncaught src x)"
    and rest: "\<forall>entry \<in> set es. module_entry root (fst entry) \<noteq> None \<longrightarrow>
       snd (snd entry) = NoteWritten \<and> (\<forall>src x. fst (snd entry) \<noteq> Uncaught src x)"
    by simp_all
  note round = smooth_round [OF here, of vault cat out]
  from round Cons.prems(2) have none: "raised ?out = None" by simp
  from Cons.IH [OF rest none] round none show ?case
    by (auto simp: Let_def)
qed

lemma smooth_run_member:
  assumes "\<forall>entry \<in> set es. module_entry root (fst entry) \<noteq> None \<longrightarrow>
             snd (snd entry) = NoteWritten \<and> (\<forall>src x. fst (snd entry) \<noteq> Uncaught src x)"
    and "raised out = None"
    and "(rel, file, io) \<in> set es" and "module_entry root rel \<noteq> None"
    and "parse_imports (root @ rel) file cat = Inr (d, diag)"
  shows "(str_path (vault @ with_suffix rel ''.md''), render_note cat rel d)
           \<in> set (written (write_nodes_loop root vault cat out es))
       \<and> set diag \<subseteq> set (errors (write_nodes_loop root vault cat out es))"
  using assms(1-3)
proof (induction es arbitrary: out)
  case Nil
  then show ?case by simp
next
  case (Cons entry es)
  let ?out = "write_node root vault cat out entry"
  from Cons.prems(1) have here: "module_entry root (fst entry) \<noteq> None \<longrightarrow>
       snd (snd entry) = NoteWritten \<and> (\<forall>src x. fst (snd entry) \<noteq> Uncaught src x)"
    and rest: "\<forall>entry \<in> set es. module_entry root (fst entry) \<noteq> None \<longrightarrow>
       snd (snd entry) = NoteWritten \<and> (\<forall>src x. fst (snd entry) \<noteq> Uncaught src x)"
    by simp_all
  from smooth_round [OF here, of vault cat out] Cons.prems(2)
  have none: "raised ?out = None" by simp
  have loop: "write_nodes_loop root vault cat out (entry # es)
              = write_nodes_loop root vault cat ?out es"
    using none by (simp add: Let_def)
  show ?case
  proof (cases "entry = (rel, file, io)")
    case True
    with here assms(4) have io: "snd (snd entry) = NoteWritten" by simp
    from True assms(4,5) have "module_entry root (fst entry) \<noteq> None"
      "parse_imports (root @ fst entry) (fst (snd entry)) cat = Inr (d, diag)" by simp_all
    from write_node_done [OF this(1) io this(2), of vault out] True
    have "(str_path (vault @ with_suffix rel ''.md''), render_note cat rel d) \<in> set (written ?out)"
      "set diag \<subseteq> set (errors ?out)" by simp_all
    with smooth_run [OF rest none, of vault cat] show ?thesis unfolding loop by blast
  next
    case False
    with Cons.prems(3) have "(rel, file, io) \<in> set es" by simp
    from Cons.IH [OF rest none this] show ?thesis unfolding loop .
  qed
qed

section \<open>Files that cannot be read or parsed\<close>

text \<open>
  A text on which \<^verbatim>\<open>ast.parse\<close> raises something other than \<^verbatim>\<open>SyntaxError\<close> does
  not give an empty record: a sum of five thousand terms makes the parser raise
  \<^verbatim>\<open>RecursionError\<close>, which line 59 does not catch, so \<^verbatim>\<open>parse_imports\<close> raises,
  the loop of line 135 ends and the file after it gets no note. An unreadable file whose
  note cannot be written (its path in the vault is a directory) ends the run too, after
  its diagnostic.
\<close>

theorem uncaught_exception_ends_run:
  "parse_imports [''home'', ''proj'', ''a.py'']
     (Uncaught (concat (replicate 5000 ''1+'') @ ''1'') ''RecursionError'') []
     = Inl ''RecursionError''
   \<and> write_markdown_nodes [''home'', ''proj''] [''home'', ''vault'']
        [([''a.py''], Uncaught (concat (replicate 5000 ''1+'') @ ''1'') ''RecursionError'',
          NoteWritten),
         ([''b.py''], Module ''import os'' [Other, Import [Alias ''os'' None], Other],
          NoteWritten)]
     = \<lparr>made_dirs = [''/home/vault''], written = [], printed = [], errors = [],
        raised = Some ''RecursionError''\<rparr>
   \<and> write_markdown_nodes [''home'', ''proj''] [''home'', ''vault'']
        [([''x.py''], Unreadable ''denied'', WriteRaised ''IsADirectoryError''),
         ([''z.py''], Module ''import os'' [Other, Import [Alias ''os'' None], Other],
          NoteWritten)]
     = \<lparr>made_dirs = [''/home/vault''], written = [], printed = [],
        errors = [''Error reading /home/proj/x.py: denied''],
        raised = Some ''IsADirectoryError''\<rparr>"
  by (simp add: parse_imports_def write_markdown_nodes_def write_node_def matches_py_def
      endswith_def parts_def path_name_def startswith_def with_suffix_def path_suffix_def
      rfind_def parent_def str_path_def Let_def)

text \<open>
  C7, amended. For a file that cannot be read, or on whose text \<^verbatim>\<open>ast.parse\<close> raises
  \<^verbatim>\<open>SyntaxError\<close>, \<^verbatim>\<open>parse_imports\<close> returns two empty sets and prints one
  diagnostic line to \<^verbatim>\<open>sys.stderr\<close>; it does not raise. Such a file does not stop
  the run: when its note can be written, the loop writes the note for two empty sets and
  goes on with the rest of the entries; and in a tree where every note can be written
  and no parse raises an uncaught exception, the run ends without an exception, with one
  note for every eligible file in the order of the walk, the note of the failed file and
  its diagnostic among them.
\<close>

theorem failed_file_gives_empty_record:
  assumes failed: "file = Unreadable e \<or> file = Malformed source e"
  shows "parse_imports filepath file cat
           = Inr (({}, {}),
                  [(if file = Unreadable e then ''Error reading '' else ''Syntax error in '')
                   @ str_path filepath @ '': '' @ e])
       \<and> (module_entry project_root rel \<noteq> None \<and> raised out = None \<longrightarrow>
            write_nodes_loop project_root vault_root cat out ((rel, file, NoteWritten) # rest)
            = write_nodes_loop project_root vault_root cat
                (out\<lparr>made_dirs := made_dirs out @
                        [str_path (parent (vault_root @ with_suffix rel ''.md''))],
                      errors := errors out @
                        [(if file = Unreadable e then ''Error reading ''
                          else ''Syntax error in '')
                         @ str_path (project_root @ rel) @ '': '' @ e],
                      written := written out @
                        [(str_path (vault_root @ with_suffix rel ''.md''),
                          render_note cat rel ({}, {}))],
                      printed := printed out @
                        [''Generated node: '' @ str_path (vault_root @ with_suffix rel ''.md'')]\<rparr>)
                rest)
       \<and> ((\<forall>entry \<in> set tree.
              matches_py (fst entry) \<and> module_entry project_root (fst entry) \<noteq> None \<longrightarrow>
              snd (snd entry) = NoteWritten \<and> (\<forall>src x. fst (snd entry) \<noteq> Uncaught src x))
           \<and> (rel, file, NoteWritten) \<in> set tree \<and> matches_py rel
           \<and> module_entry project_root rel \<noteq> None \<longrightarrow>
            raised (write_markdown_nodes project_root vault_root tree) = None
            \<and> map fst (written (write_markdown_nodes project_root vault_root tree))
                = map (\<lambda>entry. str_path (vault_root @ with_suffix (fst entry) ''.md''))
                    (filter (\<lambda>entry. matches_py (fst entry)
                         \<and> module_entry project_root (fst entry) \<noteq> None) tree)
            \<and> (str_path (vault_root @ with_suffix rel ''.md''),
                render_note (get_internal_modules project_root (map fst tree)) rel ({}, {}))
                 \<in> set (written (write_markdown_nodes project_root vault_root tree))
            \<and> (if file = Unreadable e then ''Error reading '' else ''Syntax error in '')
                @ str_path (project_root @ rel) @ '': '' @ e
                 \<in> set (errors (write_markdown_nodes project_root vault_root tree)))"
proof -
  let ?diag = "\<lambda>p. (if file = Unreadable e then ''Error reading '' else ''Syntax error in '')
                   @ str_path p @ '': '' @ e"
  have returned: "parse_imports p file c = Inr (({}, {}), [?diag p])" for p c
    using failed by (auto simp: parse_imports_def)
  have round: "write_nodes_loop project_root vault_root cat out ((rel, file, NoteWritten) # rest)
            = write_nodes_loop project_root vault_root cat
                (out\<lparr>made_dirs := made_dirs out @
                        [str_path (parent (vault_root @ with_suffix rel ''.md''))],
                      errors := errors out @ [?diag (project_root @ rel)],
                      written := written out @
                        [(str_path (vault_root @ with_suffix rel ''.md''),
                          render_note cat rel ({}, {}))],
                      printed := printed out @
                        [''Generated node: '' @ str_path (vault_root @ with_suffix rel ''.md'')]\<rparr>)
                rest"
    if "module_entry project_root rel \<noteq> None \<and> raised out = None"
  proof -
    from that have el: "module_entry project_root (fst (rel, file, NoteWritten)) \<noteq> None"
      and none: "raised out = None" by simp_all
    have "write_node project_root vault_root cat out (rel, file, NoteWritten)
          = out\<lparr>made_dirs := made_dirs out @
                        [str_path (parent (vault_root @ with_suffix rel ''.md''))],
                      errors := errors out @ [?diag (project_root @ rel)],
                      written := written out @
                        [(str_path (vault_root @ with_suffix rel ''.md''),
                          render_note cat rel ({}, {}))],
                      printed := printed out @
                        [''Generated node: '' @ str_path (vault_root @ with_suffix rel ''.md'')]\<rparr>"
      using write_node_done [OF el, where d = "({}, {})"
          and diag = "[?diag (project_root @ rel)]" and cat = cat and vault = vault_root
          and out = out]
        returned [of "project_root @ rel" cat]
      by simp
    with none show ?thesis by (simp add: Let_def)
  qed
  let ?cat = "get_internal_modules project_root (map fst tree)"
  let ?run = "write_markdown_nodes project_root vault_root tree"
  let ?es = "filter (\<lambda>entry. matches_py (fst entry)) tree"
  let ?init = "\<lparr>made_dirs = [], written = [], printed = [], errors = [], raised = None\<rparr>"
  have whole: "raised ?run = None
            \<and> map fst (written ?run)
                = map (\<lambda>entry. str_path (vault_root @ with_suffix (fst entry) ''.md''))
                    (filter (\<lambda>entry. matches_py (fst entry)
                         \<and> module_entry project_root (fst entry) \<noteq> None) tree)
            \<and> (str_path (vault_root @ with_suffix rel ''.md''), render_note ?cat rel ({}, {}))
                 \<in> set (written ?run)
            \<and> ?diag (project_root @ rel) \<in> set (errors ?run)"
    if smooth: "(\<forall>entry \<in> set tree.
              matches_py (fst entry) \<and> module_entry project_root (fst entry) \<noteq> None \<longrightarrow>
              snd (snd entry) = NoteWritten \<and> (\<forall>src x. fst (snd entry) \<noteq> Uncaught src x))
           \<and> (rel, file, NoteWritten) \<in> set tree \<and> matches_py rel
           \<and> module_entry project_root rel \<noteq> None"
  proof -
    have run: "?run = write_nodes_loop project_root vault_root ?cat ?init ?es"
      by (simp add: write_markdown_nodes_def Let_def)
    from smooth have all: "\<forall>entry \<in> set ?es. module_entry project_root (fst entry) \<noteq> None \<longrightarrow>
             snd (snd entry) = NoteWritten \<and> (\<forall>src x. fst (snd entry) \<noteq> Uncaught src x)"
      by simp
    have init: "raised ?init = None" by simp
    from smooth have mem: "(rel, file, NoteWritten) \<in> set ?es"
      and el: "module_entry project_root rel \<noteq> None" by simp_all
    from smooth_run [OF all init, of vault_root ?cat]
    have "raised ?run = None"
      and "map fst (written ?run)
           = map (\<lambda>entry. str_path (vault_root @ with_suffix (fst entry) ''.md''))
               (filter (\<lambda>entry. module_entry project_root (fst entry) \<noteq> None) ?es)"
      unfolding run by simp_all
    moreover have "filter (\<lambda>entry. module_entry project_root (fst entry) \<noteq> None) ?es
          = filter (\<lambda>entry. matches_py (fst entry)
                         \<and> module_entry project_root (fst entry) \<noteq> None) tree"
      by (simp add: conj_commute)
    moreover from smooth_run_member [OF all init mem el returned, where vault = vault_root]
    have "(str_path (vault_root @ with_suffix rel ''.md''), render_note ?cat rel ({}, {}))
                 \<in> set (written ?run)" and "?diag (project_root @ rel) \<in> set (errors ?run)"
      unfolding run by simp_all
    ultimately show ?thesis by simp
  qed
  from returned [of filepath cat] round whole show ?thesis by blast
qed

theorem failed_file_gives_empty_record_witness:
  "parse_imports [''home'', ''proj'', ''a.py''] (Unreadable ''denied'') []
     = Inr (({}, {}), [''Error reading /home/proj/a.py: denied''])
   \<and> raised (write_markdown_nodes [''home'', ''proj''] [''home'', ''vault'']
        [([''a.py''], Unreadable ''denied'', NoteWritten),
         ([''b.py''], Module ''import os'' [Other, Import [Alias ''os'' None], Other],
          NoteWritten)]) = None
   \<and> map fst (written (write_markdown_nodes [''home'', ''proj''] [''home'', ''vault'']
        [([''a.py''], Unreadable ''denied'', NoteWritten),
         ([''b.py''], Module ''import os'' [Other, Import [Alias ''os'' None], Other],
          NoteWritten)]))
       = [''/home/vault/a.md'', ''/home/vault/b.md'']
   \<and> ''Error reading /home/proj/a.py: denied''
       \<in> set (errors (write_markdown_nodes [''home'', ''proj''] [''home'', ''vault'']
        [([''a.py''], Unreadable ''denied'', NoteWritten),
         ([''b.py''], Module ''import os'' [Other, Import [Alias ''os'' None], Other],
          NoteWritten)]))"
proof -
  let ?tree = "[([''a.py''], Unreadable ''denied'', NoteWritten),
         ([''b.py''], Module ''import os'' [Other, Import [Alias ''os'' None], Other],
          NoteWritten)]"
  have failed: "Unreadable ''denied'' = Unreadable ''denied''
                \<or> Unreadable ''denied'' = Malformed [] ''denied''"
    by simp
  have eligible: "matches_py [''a.py'']" "matches_py [''b.py'']"
    "module_entry [''home'', ''proj''] [''a.py''] = Some (''a'', ''a'')"
    "module_entry [''home'', ''proj''] [''b.py''] = Some (''b'', ''b'')"
    by (simp_all add: matches_py_def endswith_def module_entry_def parts_def path_name_def
        startswith_def mod_name_of_def note_of_def with_suffix_def path_suffix_def rfind_def
        parent_def as_posix_def replace_slash_def)
  have paths: "with_suffix [''a.py''] ''.md'' = [''a.md'']"
    "with_suffix [''b.py''] ''.md'' = [''b.md'']"
    by (simp_all add: with_suffix_def path_name_def path_suffix_def rfind_def parent_def)
  from failed_file_gives_empty_record [OF failed, where filepath = "[''home'', ''proj'', ''a.py'']"
      and cat = "[]" and project_root = "[''home'', ''proj'']"
      and vault_root = "[''home'', ''vault'']" and tree = ?tree and rel = "[''a.py'']"]
  show ?thesis
    by (simp add: eligible paths str_path_def)
qed

end
